theory Spec2Isabelle
  imports Main "HOL-Library.List_Lexorder" "HOL-Library.Char_ord"
begin

section \<open>Candidate source: word lists (sublive.go, lines 24-28, 83-133, 155-187)\<close>

text \<open>
  Go strings are byte sequences and are modelled as \<^typ>\<open>string\<close>. A \<open>nil\<close> slice and an
  empty slice are both the empty list: the program only ever takes \<open>len\<close> of them.
\<close>

definition defaultWords :: "string list" where
  "defaultWords =
     [''www'', ''mail'', ''ftp'', ''api'', ''dev'', ''test'', ''stage'', ''admin'', ''portal'', ''beta'',
      ''shop'', ''cdn'', ''m'', ''mobile'', ''secure'', ''webmail'']"

datatype os_error = OpenFailed | StatFailed | ScanFailed

text \<open>
  What the operating system and the Go library give the loaders. \<open>open_file path\<close> is
  \<open>os.Open\<close> followed by the \<open>bufio.Scanner\<close> over the file: the error of \<open>os.Open\<close>, or
  the texts the scanner yields together with the scanner's final \<open>Err()\<close>.
  \<open>stdin_char_device\<close> is \<open>os.Stdin.Stat()\<close>: its error, or whether the mode has
  \<open>os.ModeCharDevice\<close> set (standard input is a terminal, nothing is piped).
  \<open>stdin_scan\<close> is the scanner over standard input. \<open>TrimSpace\<close> is
  \<open>strings.TrimSpace\<close>, a library function the claims do not depend on.
\<close>

record os_env =
  open_file :: "string \<Rightarrow> os_error + (string list \<times> os_error option)"
  stdin_char_device :: "os_error + bool"
  stdin_scan :: "string list \<times> os_error option"
  TrimSpace :: "string \<Rightarrow> string"

text \<open>The scanning loop shared by both loaders (lines 92-97 and 111-116).\<close>

fun scan_loop :: "(string \<Rightarrow> string) \<Rightarrow> string list \<Rightarrow> string list \<Rightarrow> string list" where
  "scan_loop trim [] out = out"
| "scan_loop trim (t # ts) out =
     (let line = trim t
      in if line \<noteq> [] then scan_loop trim ts (out @ [line]) else scan_loop trim ts out)"

text \<open>\<open>loadWordlistFromStdin\<close>: the pair is Go's \<open>([]string, error)\<close>.\<close>

definition loadWordlistFromStdin :: "os_env \<Rightarrow> string list \<times> os_error option" where
  "loadWordlistFromStdin env =
     (case stdin_char_device env of
        Inl err \<Rightarrow> ([], Some err)
      | Inr char_device \<Rightarrow>
          if \<not> char_device
          then (scan_loop (TrimSpace env) (fst (stdin_scan env)) [], snd (stdin_scan env))
          else ([], None))"

definition loadWordlistFromFile :: "os_env \<Rightarrow> string \<Rightarrow> string list \<times> os_error option" where
  "loadWordlistFromFile env path =
     (case open_file env path of
        Inl err \<Rightarrow> ([], Some err)
      | Inr (texts, scan_err) \<Rightarrow> (scan_loop (TrimSpace env) texts [], scan_err))"

text \<open>\<open>uniqStrings\<close> (lines 120-133): \<open>m\<close> is the set of keys of the Go map.\<close>

fun uniq_loop :: "string list \<Rightarrow> string set \<Rightarrow> string list \<Rightarrow> string list" where
  "uniq_loop [] m out = out"
| "uniq_loop (s # ss) m out =
     (if s = [] then uniq_loop ss m out
      else if s \<notin> m then uniq_loop ss (insert s m) (out @ [s])
      else uniq_loop ss m out)"

definition uniqStrings :: "string list \<Rightarrow> string list" where
  "uniqStrings inp = uniq_loop inp {} []"

text \<open>The built-in defaults by tier (lines 169-178).\<close>

definition tier_words :: "int \<Rightarrow> string list" where
  "tier_words t =
     (if t = 1 then defaultWords @
        [''app'', ''gateway'', ''auth'', ''accounts'', ''login'', ''payments'', ''images'', ''static'',
         ''docs'', ''status'', ''internal'', ''ops'', ''graphql'', ''socket'', ''router'', ''db'']
      else if t = 2 then defaultWords @ [''app'', ''auth'', ''login'', ''api'', ''static'', ''cdn'']
      else if t = 3 then defaultWords
      else defaultWords)"

text \<open>
  The choice of the word list in \<open>main\<close> (lines 156-181). \<open>Inl code\<close> is \<open>os.Exit(code)\<close>.
\<close>

definition select_words :: "os_env \<Rightarrow> string \<Rightarrow> int \<Rightarrow> nat + string list" where
  "select_words env wordlistPath t =
     (if wordlistPath \<noteq> [] then
        (case loadWordlistFromFile env wordlistPath of
           (w, Some err) \<Rightarrow> Inl 1
         | (w, None) \<Rightarrow> Inr w)
      else
        (case loadWordlistFromStdin env of
           (piped, _) \<Rightarrow> if length piped > 0 then Inr piped else Inr (tier_words t)))"

definition main_words :: "os_env \<Rightarrow> string \<Rightarrow> int \<Rightarrow> nat + string list" where
  "main_words env wordlistPath t =
     (case select_words env wordlistPath t of
        Inl code \<Rightarrow> Inl code
      | Inr ws \<Rightarrow> Inr (uniqStrings ws))"

text \<open>The initial candidates (lines 184-187).\<close>

definition candidates :: "string \<Rightarrow> string list \<Rightarrow> string list" where
  "candidates domain ws = map (\<lambda>w. w @ ''.'' @ domain) ws"

section \<open>Channels and the Go runtime\<close>

text \<open>
  A buffered channel: the queued values (oldest first), the capacity given to \<open>make\<close>, and
  whether \<open>close\<close> has been called. A send on a closed channel is a run-time panic of Go;
  a send on an open, full channel and a receive on an open, empty channel wait for another
  goroutine, which the model reports as \<open>Blocked\<close> and \<open>NothingYet\<close>.
\<close>

record 'a chan =
  ch_buf :: "'a list"
  ch_cap :: nat
  ch_closed :: bool

datatype fault = SendOnClosedChannel | CloseOfClosedChannel | NilPointerDereference

datatype 'a outcome = Done 'a | Blocked | Panic fault

definition make_chan :: "nat \<Rightarrow> 'a chan" where
  "make_chan n = \<lparr>ch_buf = [], ch_cap = n, ch_closed = False\<rparr>"

definition send :: "'a chan \<Rightarrow> 'a \<Rightarrow> 'a chan outcome" where
  "send ch v =
     (if ch_closed ch then Panic SendOnClosedChannel
      else if length (ch_buf ch) < ch_cap ch then Done (ch\<lparr>ch_buf := ch_buf ch @ [v]\<rparr>)
      else Blocked)"

datatype 'a received = Received 'a "'a chan" | ClosedAndDrained | NothingYet

definition recv :: "'a chan \<Rightarrow> 'a received" where
  "recv ch =
     (case ch_buf ch of
        v # vs \<Rightarrow> Received v (ch\<lparr>ch_buf := vs\<rparr>)
      | [] \<Rightarrow> if ch_closed ch then ClosedAndDrained else NothingYet)"

definition close_chan :: "'a chan \<Rightarrow> 'a chan outcome" where
  "close_chan ch =
     (if ch_closed ch then Panic CloseOfClosedChannel else Done (ch\<lparr>ch_closed := True\<rparr>))"

definition and_then :: "'a outcome \<Rightarrow> ('a \<Rightarrow> 'b outcome) \<Rightarrow> 'b outcome" where
  "and_then x f = (case x of Done a \<Rightarrow> f a | Blocked \<Rightarrow> Blocked | Panic e \<Rightarrow> Panic e)"

section \<open>Prober and worker (lines 30-81)\<close>

record Result =
  Subdomain :: string
  Status :: int
  IP :: string

text \<open>
  The network as one probe sees it. \<open>LookupHost\<close> gives the addresses of
  \<open>net.LookupHost\<close>, none when the lookup fails (the code discards the error).
  \<open>NewRequest url\<close> tells whether \<open>http.NewRequestWithContext\<close> accepts the URL; when it
  does not it returns a \<open>nil\<close> request with an error, the code discards the error, and
  \<open>client.Do\<close> dereferences the \<open>nil\<close> request. \<open>client_Do url\<close> is the status code of
  the response when \<open>err == nil && resp != nil\<close>, and \<open>None\<close> otherwise (connection
  failure, timeout).
\<close>

record net_env =
  LookupHost :: "string \<Rightarrow> string list"
  NewRequest :: "string \<Rightarrow> bool"
  client_Do :: "string \<Rightarrow> int option"

datatype net_call = Lookup string | Get string

text \<open>
  The body of the worker's loop between receiving \<open>sub\<close> and publishing (lines 47-72, 78),
  with the network calls it made, in order: \<open>Inl\<close> is a panic of the goroutine, \<open>Inr\<close>
  the Result it goes on to publish. The verbose progress line is not modelled.
\<close>

definition probe :: "net_env \<Rightarrow> string \<Rightarrow> net_call list \<times> (fault + Result)" where
  "probe net sub =
     (let ips = LookupHost net sub;
          ip = (if length ips > 0 then ips ! 0 else []);
          http = ''http://'' @ sub;
          https = ''https://'' @ sub
      in if \<not> NewRequest net http then ([Lookup sub], Inl NilPointerDereference)
         else
           (case client_Do net http of
              Some code \<Rightarrow>
                ([Lookup sub, Get http], Inr \<lparr>Subdomain = sub, Status = code, IP = ip\<rparr>)
            | None \<Rightarrow>
                if \<not> NewRequest net https
                then ([Lookup sub, Get http], Inl NilPointerDereference)
                else
                  (case client_Do net https of
                     Some code2 \<Rightarrow>
                       ([Lookup sub, Get http, Get https],
                        Inr \<lparr>Subdomain = sub, Status = code2, IP = ip\<rparr>)
                   | None \<Rightarrow>
                       ([Lookup sub, Get http, Get https],
                        Inr \<lparr>Subdomain = sub, Status = 0, IP = ip\<rparr>))))"

text \<open>
  How a run of the worker's loop ends when no other goroutine interferes: it returned, it
  waits on the empty open job queue, it waits to publish a Result on the full result
  stream, or the goroutine panicked (which ends the process).
\<close>

datatype wstop = Returned | WaitingForJob | WaitingToSend Result | Crashed fault

text \<open>
  \<open>worker\<close> (lines 36-81). \<open>ctx\<close> tells at which iteration of the loop the \<open>select\<close>
  takes the \<open>ctx.Done()\<close> case: \<open>None\<close> when the context is never cancelled, as in
  \<open>main\<close>, which cancels only on return. The parameters \<open>domain\<close> (unused in the source),
  \<open>verbose\<close> (progress output only) and \<open>wg\<close> are left out; \<open>client\<close> is part of the
  network.
\<close>

function worker ::
  "net_env \<Rightarrow> nat option \<Rightarrow> string chan \<Rightarrow> Result chan \<Rightarrow> wstop \<times> string chan \<times> Result chan" where
  "worker net ctx jobs results =
     (if ctx = Some 0 then (Returned, jobs, results)
      else
        (case recv jobs of
           ClosedAndDrained \<Rightarrow> (Returned, jobs, results)
         | NothingYet \<Rightarrow> (WaitingForJob, jobs, results)
         | Received sub jobs' \<Rightarrow>
             (case snd (probe net sub) of
                Inl e \<Rightarrow> (Crashed e, jobs', results)
              | Inr r \<Rightarrow>
                  (case send results r of
                     Done results' \<Rightarrow> worker net (map_option (\<lambda>n. n - 1) ctx) jobs' results'
                   | Blocked \<Rightarrow> (WaitingToSend r, jobs', results)
                   | Panic e \<Rightarrow> (Crashed e, jobs', results)))))"
  by pat_completeness auto
termination
  by (relation "measure (\<lambda>(net, ctx, jobs, results). length (ch_buf jobs))")
     (auto simp: recv_def split: list.splits if_splits)

section \<open>Dedup registry and recursion expander (lines 229-263)\<close>

text \<open>\<open>strings.Split s "."\<close> for a one-byte separator: one part more than separators.\<close>

fun Split :: "string \<Rightarrow> char \<Rightarrow> string list" where
  "Split [] sep = [[]]"
| "Split (x # xs) sep =
     (if x = sep then [] # Split xs sep
      else (case Split xs sep of p # ps \<Rightarrow> (x # p) # ps | [] \<Rightarrow> [[x]]))"

text \<open>The registry as \<open>main\<close> creates it (line 230).\<close>

definition found_init :: "string \<rightharpoonup> Result" where
  "found_init = Map.empty"

text \<open>The first locked block of the collector (lines 235-239).\<close>

definition record_result :: "(string \<rightharpoonup> Result) \<Rightarrow> Result \<Rightarrow> (string \<rightharpoonup> Result)" where
  "record_result found r =
     (if found (Subdomain r) = None then found(Subdomain r \<mapsto> r) else found)"

text \<open>\<open>if _, ok := found[c]; !ok { jobs <- c }\<close> (lines 250-258).\<close>

definition enqueue_absent ::
  "(string \<rightharpoonup> Result) \<Rightarrow> string \<Rightarrow> string chan \<Rightarrow> string chan outcome" where
  "enqueue_absent found c jobs = (if found c = None then send jobs c else Done jobs)"

text \<open>
  One iteration of the collector's loop (lines 235-261) on the registry and the job queue
  as the iteration finds them: the Result is recorded first, and the registry that the
  three tests read already holds it. Only the collector writes the registry.
\<close>

definition collect ::
  "bool \<Rightarrow> string \<Rightarrow> (string \<rightharpoonup> Result) \<times> string chan \<Rightarrow> Result \<Rightarrow>
     ((string \<rightharpoonup> Result) \<times> string chan) outcome" where
  "collect deep domain st r =
     (let found = record_result (fst st) r;
          jobs = snd st
      in if deep \<and> Status r \<noteq> 0 then
           (let parts = Split (Subdomain r) (CHR ''.'')
            in if length parts \<ge> 3 then
                 (let sub = parts ! 0;
                      c1 = sub @ ''-stage.'' @ domain;
                      c2 = sub @ ''-dev.'' @ domain;
                      c3 = ''api.'' @ sub @ ''.'' @ domain
                  in and_then (enqueue_absent found c1 jobs) (\<lambda>j1.
                     and_then (enqueue_absent found c2 j1) (\<lambda>j2.
                     and_then (enqueue_absent found c3 j2) (\<lambda>j3.
                     Done (found, j3)))))
               else Done (found, jobs))
         else Done (found, jobs))"

text \<open>The collector's loop \<open>for r := range results\<close> over the Results it reads.\<close>

fun collector ::
  "bool \<Rightarrow> string \<Rightarrow> (string \<rightharpoonup> Result) \<times> string chan \<Rightarrow> Result list \<Rightarrow>
     ((string \<rightharpoonup> Result) \<times> string chan) outcome" where
  "collector deep domain st [] = Done st"
| "collector deep domain st (r # rs) =
     and_then (collect deep domain st r) (\<lambda>st'. collector deep domain st' rs)"

section \<open>Aggregator and classifier (lines 278-318)\<close>

text \<open>
  \<open>for _, r := range found\<close> visits every key once, in an order Go leaves unspecified:
  \<open>ks\<close> is that order.
\<close>

definition range_found :: "(string \<rightharpoonup> Result) \<Rightarrow> string list \<Rightarrow> Result list" where
  "range_found found ks = List.map_filter found ks"

definition iteration_order :: "(string \<rightharpoonup> Result) \<Rightarrow> string list \<Rightarrow> bool" where
  "iteration_order found ks = (distinct ks \<and> set ks = dom found)"

text \<open>\<open>counts[k]++\<close> on a Go map: a missing key reads as 0.\<close>

definition incr :: "(string \<rightharpoonup> int) \<Rightarrow> string \<Rightarrow> (string \<rightharpoonup> int)" where
  "incr counts k = counts(k \<mapsto> (case counts k of None \<Rightarrow> 0 | Some n \<Rightarrow> n) + 1)"

definition counts_init :: "string \<rightharpoonup> int" where
  "counts_init = [''live'' \<mapsto> 0, ''404'' \<mapsto> 0, ''301'' \<mapsto> 0, ''other'' \<mapsto> 0, ''unreachable'' \<mapsto> 0]"

text \<open>The key of \<open>counts\<close> that the chain of tests (lines 289-299) increments.\<close>

definition bucket :: "Result \<Rightarrow> string" where
  "bucket r =
     (if Status r = 0 then ''unreachable''
      else if Status r = 404 then ''404''
      else if Status r = 301 \<or> Status r = 302 then ''301''
      else if Status r \<ge> 200 \<and> Status r < 400 then ''live''
      else ''other'')"

fun classify :: "(string \<rightharpoonup> int) \<Rightarrow> Result list \<Rightarrow> (string \<rightharpoonup> int)" where
  "classify counts [] = counts"
| "classify counts (r # rs) = classify (incr counts (bucket r)) rs"

text \<open>\<open>fmt.Sprintf("%s %d", r.Subdomain, r.Status)\<close>.\<close>

definition digit_char :: "nat \<Rightarrow> char" where
  "digit_char d = ''0123456789'' ! d"

fun show_nat :: "nat \<Rightarrow> string" where
  "show_nat n = (if n < 10 then [digit_char n] else show_nat (n div 10) @ [digit_char (n mod 10)])"

declare show_nat.simps [simp del]

definition show_int :: "int \<Rightarrow> string" where
  "show_int i = (if i < 0 then CHR ''-'' # show_nat (nat (- i)) else show_nat (nat i))"

definition line_of :: "Result \<Rightarrow> string" where
  "line_of r = Subdomain r @ '' '' @ show_int (Status r)"

text \<open>
  The output lines (lines 302-318). \<open>sort.Strings\<close> orders by bytes, which is the order of
  \<^typ>\<open>string\<close> here.
\<close>

definition report_lines :: "bool \<Rightarrow> Result list \<Rightarrow> string list" where
  "report_lines sortLive subs =
     (let lines = sort (map line_of subs)
      in if sortLive
         then map line_of (filter (\<lambda>r. Status r \<ge> 200 \<and> Status r < 400) subs)
         else lines)"

section \<open>Concrete inputs for the examples\<close>

text \<open>
  A network in which \<open>www.example.com\<close> answers on HTTP with 200, \<open>secure.example.com\<close>
  only on HTTPS with 404, and \<open>zero.example.com\<close> answers on HTTP with the status line
  \<open>HTTP/1.1 000\<close>; a URL with a space in its host is refused by the request constructor.
\<close>

definition example_net :: net_env where
  "example_net =
     \<lparr>LookupHost = (\<lambda>h. if h = ''www.example.com'' then [''93.184.216.34'', ''10.0.0.1''] else []),
      NewRequest = (\<lambda>url. CHR '' '' \<notin> set url),
      client_Do = (\<lambda>url. if url = ''http://www.example.com'' then Some 200
                         else if url = ''https://secure.example.com'' then Some 404
                         else if url = ''http://zero.example.com'' then Some 0
                         else None)\<rparr>"

text \<open>Trimming of ASCII white space, which is what \<open>strings.TrimSpace\<close> does on ASCII text.\<close>

definition ascii_space :: "char \<Rightarrow> bool" where
  "ascii_space c = (c \<in> set [CHR '' '', CHR 0x09, CHR 0x0A, CHR 0x0B, CHR 0x0C, CHR 0x0D])"

definition trim_ascii :: "string \<Rightarrow> string" where
  "trim_ascii s = rev (dropWhile ascii_space (rev (dropWhile ascii_space s)))"

text \<open>
  A readable word list file \<open>words.txt\<close>, a file \<open>broken.txt\<close> on which the scanner
  fails after one line, no other file, and a terminal on standard input.
\<close>

definition example_os :: os_env where
  "example_os =
     \<lparr>open_file = (\<lambda>path. if path = ''words.txt''
                           then Inr ([''www'', [], '' api '', ''www''], None)
                           else if path = ''broken.txt''
                           then Inr ([''www''], Some ScanFailed)
                           else Inl OpenFailed),
      stdin_char_device = Inr True,
      stdin_scan = ([], None),
      TrimSpace = trim_ascii\<rparr>"

text \<open>The same with four lines piped on standard input.\<close>

definition example_os_piped :: os_env where
  "example_os_piped = example_os\<lparr>stdin_char_device := Inr False,
     stdin_scan := ([''mail'', ''  '', ''vpn'', ''mail''], None)\<rparr>"

text \<open>The same with three blank lines piped on standard input.\<close>

definition example_os_blank :: os_env where
  "example_os_blank = example_os\<lparr>stdin_char_device := Inr False,
     stdin_scan := ([''  '', [], [CHR 0x09]], None)\<rparr>"

section \<open>Properties of the candidate source\<close>

lemma scan_loop_filter:
  "scan_loop trim ts out = out @ filter (\<lambda>l. l \<noteq> []) (map trim ts)"
  by (induction ts arbitrary: out) (simp_all add: Let_def)

lemma uniq_loop_set:
  "set (uniq_loop xs m out) = set out \<union> (set xs - m - {[]})"
  by (induction xs m out rule: uniq_loop.induct) auto

lemma uniq_loop_distinct:
  "distinct out \<Longrightarrow> set out \<subseteq> m \<Longrightarrow> distinct (uniq_loop xs m out)"
  by (induction xs m out rule: uniq_loop.induct) auto

lemma uniqStrings_set: "set (uniqStrings xs) = set xs - {[]}"
  by (simp add: uniqStrings_def uniq_loop_set)

lemma uniqStrings_distinct: "distinct (uniqStrings xs)"
  by (simp add: uniqStrings_def uniq_loop_distinct)

section \<open>Properties of channels, splitting and the collector step\<close>

lemma and_then_Done [simp]: "and_then (Done a) f = f a"
  by (simp add: and_then_def)

lemma and_then_Blocked [simp]: "and_then Blocked f = Blocked"
  by (simp add: and_then_def)

lemma and_then_Panic [simp]: "and_then (Panic e) f = Panic e"
  by (simp add: and_then_def)

lemma and_then_eq_Done:
  "and_then x f = Done b \<longleftrightarrow> (\<exists>a. x = Done a \<and> f a = Done b)"
  by (cases x) simp_all

lemma Split_not_Nil [simp]: "Split s c \<noteq> []"
  by (induction s) (auto split: list.splits)


lemma Split_no_sep: "c \<notin> set l \<Longrightarrow> Split l c = [l]"
  by (induction l) auto

lemma Split_label: "c \<notin> set l \<Longrightarrow> Split (l @ c # rest) c = l # Split rest c"
  by (induction l) auto



text \<open>Under a root of a single label, a seed made from a word without dots has two labels.\<close>

lemma candidates_single_label_root:
  assumes "CHR ''.'' \<notin> set domain" and "\<forall>w\<in>set ws. CHR ''.'' \<notin> set w"
    and "c \<in> set (candidates domain ws)"
  shows "length (Split c (CHR ''.'')) = 2"
proof -
  from assms(3) obtain w where w: "w \<in> set ws" and c: "c = w @ ''.'' @ domain"
    by (auto simp: candidates_def)
  from assms(2) w have "CHR ''.'' \<notin> set w" by simp
  then show ?thesis
    unfolding c using assms(1) by (simp add: Split_label Split_no_sep)
qed

lemma send_closed: "ch_closed ch \<Longrightarrow> send ch v = Panic SendOnClosedChannel"
  by (simp add: send_def)

lemma send_eq_Done:
  "send ch v = Done ch' \<longleftrightarrow>
     \<not> ch_closed ch \<and> length (ch_buf ch) < ch_cap ch \<and> ch' = ch\<lparr>ch_buf := ch_buf ch @ [v]\<rparr>"
  by (auto simp: send_def)

lemma enqueue_absent_eq_Done:
  "enqueue_absent found c jobs = Done j \<Longrightarrow>
     j = jobs\<lparr>ch_buf := ch_buf jobs @ (if found c = None then [c] else [])\<rparr>"
  by (auto simp: enqueue_absent_def send_eq_Done)

lemma enqueue_absent_room:
  "\<not> ch_closed jobs \<Longrightarrow> length (ch_buf jobs) < ch_cap jobs \<Longrightarrow>
     enqueue_absent found c jobs =
       Done (jobs\<lparr>ch_buf := ch_buf jobs @ (if found c = None then [c] else [])\<rparr>)"
  by (simp add: enqueue_absent_def send_def)

lemma collect_no_expansion:
  "\<not> (deep \<and> Status r \<noteq> 0 \<and> 3 \<le> length (Split (Subdomain r) (CHR ''.''))) \<Longrightarrow>
     collect deep domain (found, jobs) r = Done (record_result found r, jobs)"
  by (auto simp: collect_def Let_def)

lemma collect_expansion_Done:
  assumes "deep" "Status r \<noteq> 0" "3 \<le> length (Split (Subdomain r) (CHR ''.''))"
    and "collect deep domain (found, jobs) r = Done (f, j)"
  shows "f = record_result found r \<and>
         j = jobs\<lparr>ch_buf := ch_buf jobs @
               filter (\<lambda>c. record_result found r c = None)
                 [Split (Subdomain r) (CHR ''.'') ! 0 @ ''-stage.'' @ domain,
                  Split (Subdomain r) (CHR ''.'') ! 0 @ ''-dev.'' @ domain,
                  ''api.'' @ Split (Subdomain r) (CHR ''.'') ! 0 @ ''.'' @ domain]\<rparr>"
  using assms
  by (auto simp: collect_def Let_def and_then_eq_Done dest!: enqueue_absent_eq_Done)

lemma collect_expansion_room:
  assumes "deep" "Status r \<noteq> 0" "3 \<le> length (Split (Subdomain r) (CHR ''.''))"
    and "\<not> ch_closed jobs" "length (ch_buf jobs) + 3 \<le> ch_cap jobs"
  shows "collect deep domain (found, jobs) r =
         Done (record_result found r,
           jobs\<lparr>ch_buf := ch_buf jobs @
               filter (\<lambda>c. record_result found r c = None)
                 [Split (Subdomain r) (CHR ''.'') ! 0 @ ''-stage.'' @ domain,
                  Split (Subdomain r) (CHR ''.'') ! 0 @ ''-dev.'' @ domain,
                  ''api.'' @ Split (Subdomain r) (CHR ''.'') ! 0 @ ''.'' @ domain]\<rparr>)"
  using assms
  by (simp add: collect_def Let_def enqueue_absent_def send_def)

lemma collect_closed_panics:
  assumes "deep" "Status r \<noteq> 0" "3 \<le> length (Split (Subdomain r) (CHR ''.''))"
    and "ch_closed jobs"
    and "record_result found r (Split (Subdomain r) (CHR ''.'') ! 0 @ ''-stage.'' @ domain) = None
       \<or> record_result found r (Split (Subdomain r) (CHR ''.'') ! 0 @ ''-dev.'' @ domain) = None
       \<or> record_result found r (''api.'' @ Split (Subdomain r) (CHR ''.'') ! 0 @ ''.'' @ domain) = None"
  shows "collect deep domain (found, jobs) r = Panic SendOnClosedChannel"
  using assms
  by (auto simp: collect_def Let_def enqueue_absent_def send_def)

section \<open>The word list\<close>

lemma remdups_snoc:
  "remdups (ys @ [s]) = remdups (filter (\<lambda>x. x \<noteq> s) ys) @ [s]"
  by (induction ys) auto

lemma uniq_loop_first_occurrences:
  "uniq_loop xs m out = out @ rev (remdups (rev (filter (\<lambda>s. s \<noteq> [] \<and> s \<notin> m) xs)))"
proof (induction xs m out rule: uniq_loop.induct)
  case (1 m out)
  show ?case by simp
next
  case (2 s ss m out)
  show ?case
  proof (cases "s \<noteq> [] \<and> s \<notin> m")
    case True
    have "filter (\<lambda>x. x \<noteq> s) (filter (\<lambda>x. x \<noteq> [] \<and> x \<notin> m) ss)
        = filter (\<lambda>x. x \<noteq> [] \<and> x \<notin> insert s m) ss"
      by (auto intro: filter_cong)
    then have "rev (remdups (rev (filter (\<lambda>x. x \<noteq> [] \<and> x \<notin> m) (s # ss))))
        = s # rev (remdups (rev (filter (\<lambda>x. x \<noteq> [] \<and> x \<notin> insert s m) ss)))"
      using True by (simp add: remdups_snoc rev_filter [symmetric])
    with True "2.IH"(2) show ?thesis by simp
  next
    case False
    with "2.IH"(1,3) show ?thesis by auto
  qed
qed

lemma uniqStrings_first_occurrences:
  "uniqStrings xs = rev (remdups (rev (filter (\<lambda>s. s \<noteq> []) xs)))"
  by (simp add: uniqStrings_def uniq_loop_first_occurrences)

lemma loadWordlistFromStdin_words:
  "fst (loadWordlistFromStdin env) =
     (if stdin_char_device env = Inr False
      then filter (\<lambda>l. l \<noteq> []) (map (TrimSpace env) (fst (stdin_scan env)))
      else [])"
  by (auto simp: loadWordlistFromStdin_def scan_loop_filter split: sum.splits)

lemma uniqStrings_trimmed:
  "uniqStrings (filter (\<lambda>l. l \<noteq> []) ys) = rev (remdups (rev (filter (\<lambda>l. l \<noteq> []) ys)))"
  by (simp add: uniqStrings_first_occurrences)

lemma tier_defaults:
  "uniqStrings (tier_words t) =
     (if t = 1 then
        [''www'', ''mail'', ''ftp'', ''api'', ''dev'', ''test'', ''stage'', ''admin'', ''portal'',
         ''beta'', ''shop'', ''cdn'', ''m'', ''mobile'', ''secure'', ''webmail'',
         ''app'', ''gateway'', ''auth'', ''accounts'', ''login'', ''payments'', ''images'',
         ''static'', ''docs'', ''status'', ''internal'', ''ops'', ''graphql'', ''socket'',
         ''router'', ''db'']
      else if t = 2 then
        [''www'', ''mail'', ''ftp'', ''api'', ''dev'', ''test'', ''stage'', ''admin'', ''portal'',
         ''beta'', ''shop'', ''cdn'', ''m'', ''mobile'', ''secure'', ''webmail'',
         ''app'', ''auth'', ''login'', ''static'']
      else
        [''www'', ''mail'', ''ftp'', ''api'', ''dev'', ''test'', ''stage'', ''admin'', ''portal'',
         ''beta'', ''shop'', ''cdn'', ''m'', ''mobile'', ''secure'', ''webmail''])"
  by (simp add: uniqStrings_def tier_words_def defaultWords_def)

text \<open>
  Claim C9, as amended. The word list is chosen by strict priority. With a word list path
  configured the file is used, and a file that cannot be opened, or on which the scanner
  fails, ends the program with exit code 1. Without a path, when data is piped on standard
  input and at least one piped line is not blank, the piped lines are used. Otherwise
  (standard input is a terminal or cannot be examined, or only blank lines are piped) the
  built-in words of the tier are used: the sixteen default words, with sixteen more in
  tier 1 and four more in tier 2. Lines are trimmed and blank lines dropped, and of equal
  fragments the first is kept: the fragments that result are pairwise different and none
  is empty.
\<close>

theorem wordlist_priority:
  "(wordlistPath \<noteq> [] \<and> open_file env wordlistPath = Inl e \<longrightarrow>
      main_words env wordlistPath t = Inl 1)
   \<and> (wordlistPath \<noteq> [] \<and> open_file env wordlistPath = Inr (texts, Some e) \<longrightarrow>
      main_words env wordlistPath t = Inl 1)
   \<and> (wordlistPath \<noteq> [] \<and> open_file env wordlistPath = Inr (texts, None) \<longrightarrow>
      main_words env wordlistPath t =
        Inr (rev (remdups (rev (filter (\<lambda>l. l \<noteq> []) (map (TrimSpace env) texts))))))
   \<and> (wordlistPath = [] \<and> stdin_char_device env = Inr False
        \<and> filter (\<lambda>l. l \<noteq> []) (map (TrimSpace env) (fst (stdin_scan env))) \<noteq> [] \<longrightarrow>
      main_words env wordlistPath t =
        Inr (rev (remdups (rev
          (filter (\<lambda>l. l \<noteq> []) (map (TrimSpace env) (fst (stdin_scan env))))))))
   \<and> (wordlistPath = []
        \<and> (stdin_char_device env \<noteq> Inr False
           \<or> filter (\<lambda>l. l \<noteq> []) (map (TrimSpace env) (fst (stdin_scan env))) = []) \<longrightarrow>
      main_words env wordlistPath t =
        Inr (if t = 1 then
               [''www'', ''mail'', ''ftp'', ''api'', ''dev'', ''test'', ''stage'', ''admin'',
                ''portal'', ''beta'', ''shop'', ''cdn'', ''m'', ''mobile'', ''secure'', ''webmail'',
                ''app'', ''gateway'', ''auth'', ''accounts'', ''login'', ''payments'', ''images'',
                ''static'', ''docs'', ''status'', ''internal'', ''ops'', ''graphql'', ''socket'',
                ''router'', ''db'']
             else if t = 2 then
               [''www'', ''mail'', ''ftp'', ''api'', ''dev'', ''test'', ''stage'', ''admin'',
                ''portal'', ''beta'', ''shop'', ''cdn'', ''m'', ''mobile'', ''secure'', ''webmail'',
                ''app'', ''auth'', ''login'', ''static'']
             else
               [''www'', ''mail'', ''ftp'', ''api'', ''dev'', ''test'', ''stage'', ''admin'',
                ''portal'', ''beta'', ''shop'', ''cdn'', ''m'', ''mobile'', ''secure'', ''webmail'']))
   \<and> (main_words env wordlistPath t = Inr ws \<longrightarrow> distinct ws \<and> [] \<notin> set ws)"
proof (intro conjI impI)
  assume "wordlistPath \<noteq> [] \<and> open_file env wordlistPath = Inl e"
  then show "main_words env wordlistPath t = Inl 1"
    by (simp add: main_words_def select_words_def loadWordlistFromFile_def)
next
  assume "wordlistPath \<noteq> [] \<and> open_file env wordlistPath = Inr (texts, Some e)"
  then show "main_words env wordlistPath t = Inl 1"
    by (simp add: main_words_def select_words_def loadWordlistFromFile_def)
next
  assume "wordlistPath \<noteq> [] \<and> open_file env wordlistPath = Inr (texts, None)"
  then show "main_words env wordlistPath t =
        Inr (rev (remdups (rev (filter (\<lambda>l. l \<noteq> []) (map (TrimSpace env) texts)))))"
    by (simp add: main_words_def select_words_def loadWordlistFromFile_def scan_loop_filter
        uniqStrings_trimmed)
next
  assume a: "wordlistPath = [] \<and> stdin_char_device env = Inr False
        \<and> filter (\<lambda>l. l \<noteq> []) (map (TrimSpace env) (fst (stdin_scan env))) \<noteq> []"
  then have "fst (loadWordlistFromStdin env)
      = filter (\<lambda>l. l \<noteq> []) (map (TrimSpace env) (fst (stdin_scan env)))"
    by (simp add: loadWordlistFromStdin_words)
  with a show "main_words env wordlistPath t =
        Inr (rev (remdups (rev
          (filter (\<lambda>l. l \<noteq> []) (map (TrimSpace env) (fst (stdin_scan env)))))))"
    by (cases "loadWordlistFromStdin env")
       (simp add: main_words_def select_words_def uniqStrings_trimmed)
next
  assume a: "wordlistPath = []
        \<and> (stdin_char_device env \<noteq> Inr False
           \<or> filter (\<lambda>l. l \<noteq> []) (map (TrimSpace env) (fst (stdin_scan env))) = [])"
  then have "fst (loadWordlistFromStdin env) = []"
    by (auto simp: loadWordlistFromStdin_words)
  with a have "main_words env wordlistPath t = Inr (uniqStrings (tier_words t))"
    by (cases "loadWordlistFromStdin env") (simp add: main_words_def select_words_def)
  then show "main_words env wordlistPath t =
        Inr (if t = 1 then
               [''www'', ''mail'', ''ftp'', ''api'', ''dev'', ''test'', ''stage'', ''admin'',
                ''portal'', ''beta'', ''shop'', ''cdn'', ''m'', ''mobile'', ''secure'', ''webmail'',
                ''app'', ''gateway'', ''auth'', ''accounts'', ''login'', ''payments'', ''images'',
                ''static'', ''docs'', ''status'', ''internal'', ''ops'', ''graphql'', ''socket'',
                ''router'', ''db'']
             else if t = 2 then
               [''www'', ''mail'', ''ftp'', ''api'', ''dev'', ''test'', ''stage'', ''admin'',
                ''portal'', ''beta'', ''shop'', ''cdn'', ''m'', ''mobile'', ''secure'', ''webmail'',
                ''app'', ''auth'', ''login'', ''static'']
             else
               [''www'', ''mail'', ''ftp'', ''api'', ''dev'', ''test'', ''stage'', ''admin'',
                ''portal'', ''beta'', ''shop'', ''cdn'', ''m'', ''mobile'', ''secure'', ''webmail''])"
    unfolding tier_defaults by simp
next
  assume ws: "main_words env wordlistPath t = Inr ws"
  then obtain chosen where c: "ws = uniqStrings chosen"
    by (auto simp: main_words_def split: sum.splits)
  show "distinct ws" using c by (simp add: uniqStrings_distinct)
  show "[] \<notin> set ws" using c by (simp add: uniqStrings_set)
qed

theorem wordlist_priority_witness:
  "main_words example_os ''words.txt'' 2 = Inr [''www'', ''api'']
   \<and> main_words example_os ''missing.txt'' 2 = Inl 1
   \<and> main_words example_os ''broken.txt'' 2 = Inl 1
   \<and> main_words example_os_piped [] 2 = Inr [''mail'', ''vpn'']
   \<and> main_words example_os [] 2 =
       Inr [''www'', ''mail'', ''ftp'', ''api'', ''dev'', ''test'', ''stage'', ''admin'',
            ''portal'', ''beta'', ''shop'', ''cdn'', ''m'', ''mobile'', ''secure'', ''webmail'',
            ''app'', ''auth'', ''login'', ''static'']
   \<and> distinct [''www'', ''api''] \<and> [] \<notin> set [''www'', ''api'']"
proof -
  have from_file: "main_words example_os ''words.txt'' 2 = Inr [''www'', ''api'']"
    using wordlist_priority [where wordlistPath = "''words.txt''" and env = example_os and t = 2
        and e = OpenFailed and texts = "[''www'', [], '' api '', ''www'']" and ws = "[]"]
    by (simp add: example_os_def trim_ascii_def ascii_space_def)
  have missing: "main_words example_os ''missing.txt'' 2 = Inl 1"
    using wordlist_priority [where wordlistPath = "''missing.txt''" and env = example_os and t = 2
        and e = OpenFailed and texts = "[]" and ws = "[]"]
    by (simp add: example_os_def)
  have broken: "main_words example_os ''broken.txt'' 2 = Inl 1"
    using wordlist_priority [where wordlistPath = "''broken.txt''" and env = example_os and t = 2
        and e = ScanFailed and texts = "[''www'']" and ws = "[]"]
    by (simp add: example_os_def)
  have piped: "main_words example_os_piped [] 2 = Inr [''mail'', ''vpn'']"
    using wordlist_priority [where wordlistPath = "[]" and env = example_os_piped and t = 2
        and e = OpenFailed and texts = "[]" and ws = "[]"]
    by (simp add: example_os_piped_def example_os_def trim_ascii_def ascii_space_def)
  have builtin: "main_words example_os [] 2 =
       Inr [''www'', ''mail'', ''ftp'', ''api'', ''dev'', ''test'', ''stage'', ''admin'',
            ''portal'', ''beta'', ''shop'', ''cdn'', ''m'', ''mobile'', ''secure'', ''webmail'',
            ''app'', ''auth'', ''login'', ''static'']"
    using wordlist_priority [where wordlistPath = "[]" and env = example_os and t = 2
        and e = OpenFailed and texts = "[]" and ws = "[]"]
    by (simp add: example_os_def)
  have "distinct [''www'', ''api''] \<and> [] \<notin> set [''www'', ''api'']"
    using wordlist_priority [where wordlistPath = "''words.txt''" and env = example_os and t = 2
        and e = OpenFailed and texts = "[]" and ws = "[''www'', ''api'']"] from_file
    by blast
  with from_file missing broken piped builtin show ?thesis by blast
qed

text \<open>
  The claim as stated (non-empty data piped on standard input is used) fails when the
  piped data consists of blank lines: the built-in words are used.
\<close>

theorem wordlist_priority_counterexample:
  "stdin_char_device example_os_blank = Inr False
   \<and> fst (stdin_scan example_os_blank) = [''  '', [], [CHR 0x09]]
   \<and> main_words example_os_blank [] 3 =
       Inr [''www'', ''mail'', ''ftp'', ''api'', ''dev'', ''test'', ''stage'', ''admin'',
            ''portal'', ''beta'', ''shop'', ''cdn'', ''m'', ''mobile'', ''secure'', ''webmail'']"
  by (simp add: main_words_def select_words_def loadWordlistFromStdin_def example_os_blank_def
      example_os_def trim_ascii_def ascii_space_def uniqStrings_def tier_words_def
      defaultWords_def Let_def)

section \<open>The dedup registry\<close>

lemma collect_found:
  "collect deep domain (found, jobs) r = Done (f, j) \<Longrightarrow> f = record_result found r"
  by (auto simp: collect_def Let_def and_then_eq_Done split: if_splits)

lemma collector_found:
  "collector deep domain (found, jobs) rs = Done (found', jobs') \<Longrightarrow>
     found' = foldl record_result found rs"
proof (induction rs arbitrary: found jobs)
  case Nil
  then show ?case by simp
next
  case (Cons r rs)
  from Cons.prems obtain f j where
    step: "collect deep domain (found, jobs) r = Done (f, j)" and
    rest: "collector deep domain (f, j) rs = Done (found', jobs')"
    by (auto simp: and_then_eq_Done)
  from step have "f = record_result found r" by (rule collect_found)
  with Cons.IH [OF rest] show ?case by simp
qed

lemma collector_not_deep:
  "collector False domain (found, jobs) rs = Done (foldl record_result found rs, jobs)"
  by (induction rs arbitrary: found) (simp_all add: collect_no_expansion)

lemma foldl_record_result:
  "foldl record_result found rs k =
     (case found k of Some v \<Rightarrow> Some v | None \<Rightarrow> find (\<lambda>r. Subdomain r = k) rs)"
  by (induction rs arbitrary: found) (auto simp: record_result_def split: option.splits)

lemma record_result_present:
  "reg (Subdomain r) = Some v \<Longrightarrow> record_result reg r = reg"
  by (simp add: record_result_def)

lemma collect_completes:
  assumes "\<not> ch_closed jobs" and "length (ch_buf jobs) + 3 \<le> ch_cap jobs"
  shows "\<exists>j. collect deep domain (found, jobs) r = Done (record_result found r, j)
           \<and> \<not> ch_closed j \<and> ch_cap j = ch_cap jobs
           \<and> length (ch_buf j) \<le> length (ch_buf jobs) + 3"
proof (cases "deep \<and> Status r \<noteq> 0 \<and> 3 \<le> length (Split (Subdomain r) (CHR ''.''))")
  case True
  then have d: "deep" and s: "Status r \<noteq> 0"
    and l: "3 \<le> length (Split (Subdomain r) (CHR ''.''))"
    by simp_all
  show ?thesis
    unfolding collect_expansion_room [OF d s l assms]
    using assms(1) by simp
next
  case False
  then show ?thesis
    using assms(1) by (simp add: collect_no_expansion)
qed

lemma collector_completes:
  "\<not> ch_closed jobs \<Longrightarrow> length (ch_buf jobs) + 3 * length rs \<le> ch_cap jobs \<Longrightarrow>
     \<exists>j. collector deep domain (found, jobs) rs = Done (foldl record_result found rs, j)"
proof (induction rs arbitrary: found jobs)
  case Nil
  then show ?case by simp
next
  case (Cons r rs)
  from Cons.prems have room: "length (ch_buf jobs) + 3 \<le> ch_cap jobs" by simp
  from collect_completes [OF Cons.prems(1) room, of deep domain found r]
  obtain j where step: "collect deep domain (found, jobs) r = Done (record_result found r, j)"
    and op: "\<not> ch_closed j" and cap: "ch_cap j = ch_cap jobs"
    and len: "length (ch_buf j) \<le> length (ch_buf jobs) + 3"
    by blast
  from Cons.prems(2) cap len have "length (ch_buf j) + 3 * length rs \<le> ch_cap j" by simp
  from Cons.IH [OF op this, of "record_result found r"] step
  show ?case by simp
qed

text \<open>
  Claim C3. When the collector has read the Results \<open>rs\<close> and the pipeline has drained,
  the registry holds under every subdomain key the first Result of \<open>rs\<close> with that key,
  and nothing under a key no Result had: one entry per key, first writer wins, whatever
  duplicates the seed or the recursion submitted. The collector does get there: always
  without recursion, and with recursion whenever the job queue is open and has room for
  three candidates per Result. Recording a Result whose key is already present leaves the
  registry as it was.
\<close>

theorem registry_first_writer_wins:
  "(collector deep domain (found_init, jobs) rs = Done (found', jobs') \<longrightarrow>
        found' k = find (\<lambda>r. Subdomain r = k) rs)
   \<and> (\<not> deep \<or> (\<not> ch_closed jobs \<and> length (ch_buf jobs) + 3 * length rs \<le> ch_cap jobs) \<longrightarrow>
        (\<exists>reg j. collector deep domain (found_init, jobs) rs = Done (reg, j)
           \<and> reg k = find (\<lambda>r. Subdomain r = k) rs))
   \<and> (\<forall>reg r v. reg (Subdomain r) = Some v \<longrightarrow> record_result reg r = reg)"
proof (intro conjI impI)
  assume "collector deep domain (found_init, jobs) rs = Done (found', jobs')"
  then have "found' = foldl record_result found_init rs" by (rule collector_found)
  then show "found' k = find (\<lambda>r. Subdomain r = k) rs"
    by (simp add: foldl_record_result found_init_def)
next
  assume c: "\<not> deep \<or> (\<not> ch_closed jobs \<and> length (ch_buf jobs) + 3 * length rs \<le> ch_cap jobs)"
  have "\<exists>j. collector deep domain (found_init, jobs) rs
            = Done (foldl record_result found_init rs, j)"
  proof (cases deep)
    case False
    then show ?thesis by (simp add: collector_not_deep)
  next
    case True
    with c show ?thesis by (simp add: collector_completes)
  qed
  moreover have "foldl record_result found_init rs k = find (\<lambda>r. Subdomain r = k) rs"
    by (simp add: foldl_record_result found_init_def)
  ultimately show "\<exists>reg j. collector deep domain (found_init, jobs) rs = Done (reg, j)
           \<and> reg k = find (\<lambda>r. Subdomain r = k) rs"
    by blast
next
  show "\<forall>reg r v. reg (Subdomain r) = Some v \<longrightarrow> record_result reg r = reg"
    by (simp add: record_result_present)
qed

theorem registry_first_writer_wins_witness:
  "collector True ''example.com'' (found_init, make_chan 10000)
     [\<lparr>Subdomain = ''www.example.com'', Status = 200, IP = ''93.184.216.34''\<rparr>,
      \<lparr>Subdomain = ''www-stage.example.com'', Status = 404, IP = ''93.184.216.34''\<rparr>,
      \<lparr>Subdomain = ''www-stage.example.com'', Status = 0, IP = []\<rparr>,
      \<lparr>Subdomain = ''www.example.com'', Status = 301, IP = []\<rparr>]
   = Done (record_result (record_result found_init
             \<lparr>Subdomain = ''www.example.com'', Status = 200, IP = ''93.184.216.34''\<rparr>)
             \<lparr>Subdomain = ''www-stage.example.com'', Status = 404, IP = ''93.184.216.34''\<rparr>,
           \<lparr>ch_buf = [''www-stage.example.com'', ''www-dev.example.com'', ''api.www.example.com'',
                      ''www-stage-stage.example.com'', ''www-stage-dev.example.com'',
                      ''api.www-stage.example.com'', ''www-dev.example.com'',
                      ''api.www.example.com''],
            ch_cap = 10000, ch_closed = False\<rparr>)
   \<and> record_result (record_result found_init
             \<lparr>Subdomain = ''www.example.com'', Status = 200, IP = ''93.184.216.34''\<rparr>)
             \<lparr>Subdomain = ''www-stage.example.com'', Status = 404, IP = ''93.184.216.34''\<rparr>
        ''www-stage.example.com''
     = Some \<lparr>Subdomain = ''www-stage.example.com'', Status = 404, IP = ''93.184.216.34''\<rparr>
   \<and> record_result (record_result found_init
             \<lparr>Subdomain = ''www.example.com'', Status = 200, IP = ''93.184.216.34''\<rparr>)
             \<lparr>Subdomain = ''www-stage.example.com'', Status = 404, IP = ''93.184.216.34''\<rparr>
        ''www.example.com''
     = Some \<lparr>Subdomain = ''www.example.com'', Status = 200, IP = ''93.184.216.34''\<rparr>"
proof -
  let ?www = "\<lparr>Subdomain = ''www.example.com'', Status = 200, IP = ''93.184.216.34''\<rparr>"
  let ?stage = "\<lparr>Subdomain = ''www-stage.example.com'', Status = 404, IP = ''93.184.216.34''\<rparr>"
  let ?stage2 = "\<lparr>Subdomain = ''www-stage.example.com'', Status = 0, IP = []\<rparr>"
  let ?www2 = "\<lparr>Subdomain = ''www.example.com'', Status = 301, IP = []\<rparr>"
  let ?rs = "[?www, ?stage, ?stage2, ?www2]"
  let ?reg = "record_result (record_result found_init ?www) ?stage"
  let ?out = "\<lparr>ch_buf = [''www-stage.example.com'', ''www-dev.example.com'', ''api.www.example.com'',
                      ''www-stage-stage.example.com'', ''www-stage-dev.example.com'',
                      ''api.www-stage.example.com'', ''www-dev.example.com'',
                      ''api.www.example.com''],
            ch_cap = 10000, ch_closed = False\<rparr>"
  have room: "\<not> True \<or> (\<not> ch_closed (make_chan 10000 :: string chan)
      \<and> length (ch_buf (make_chan 10000 :: string chan)) + 3 * length ?rs
          \<le> ch_cap (make_chan 10000 :: string chan))"
    by (simp add: make_chan_def)
  have run: "collector True ''example.com'' (found_init, make_chan 10000) ?rs = Done (?reg, ?out)"
    by (simp add: collect_def make_chan_def record_result_def found_init_def enqueue_absent_def
        send_def Let_def)
  note inst = registry_first_writer_wins [of True "''example.com''" "make_chan 10000" ?rs ?reg ?out]
  from inst [of "''www-stage.example.com''"] run
  have first_stage: "?reg ''www-stage.example.com'' = Some ?stage" by simp
  from inst [of "''www.example.com''"] run
  have first_www: "?reg ''www.example.com'' = Some ?www" by simp
  from inst [of "''www.example.com''"] room
  have "\<exists>reg j. collector True ''example.com'' (found_init, make_chan 10000) ?rs = Done (reg, j)
           \<and> reg ''www.example.com'' = find (\<lambda>r. Subdomain r = ''www.example.com'') ?rs"
    by blast
  with run first_stage first_www show ?thesis by simp
qed

section \<open>The classifier\<close>

lemma bucket_keys:
  "bucket r \<in> {''live'', ''404'', ''301'', ''other'', ''unreachable''}"
  by (simp add: bucket_def)

lemma classify_counts:
  "classify counts subs b =
     (if counts b = None \<and> b \<notin> bucket ` set subs then None
      else Some ((case counts b of None \<Rightarrow> 0 | Some n \<Rightarrow> n)
                 + int (length (filter (\<lambda>r. bucket r = b) subs))))"
  by (induction subs arbitrary: counts) (auto simp: incr_def split: option.splits)

lemma counts_init_keys:
  "b \<in> {''live'', ''404'', ''301'', ''other'', ''unreachable''} \<Longrightarrow> counts_init b = Some 0"
  by (auto simp: counts_init_def)

lemma range_found_order:
  assumes "iteration_order found ks"
  shows "range_found found ks = map (\<lambda>k. the (found k)) ks"
proof -
  from assms have "\<forall>k\<in>set ks. found k \<noteq> None"
    by (auto simp: iteration_order_def)
  then show ?thesis
    unfolding range_found_def
    by (induction ks) (auto simp: List.map_filter_simps)
qed

lemma entries_in_bucket:
  assumes "iteration_order found ks"
  shows "length (filter P (range_found found ks)) = card {k. \<exists>e. found k = Some e \<and> P e}"
proof -
  from assms have d: "distinct ks" and s: "set ks = dom found"
    by (simp_all add: iteration_order_def)
  have "length (filter P (range_found found ks)) = length (filter (\<lambda>k. P (the (found k))) ks)"
    by (simp add: range_found_order [OF assms] filter_map comp_def)
  also have "\<dots> = card {k \<in> set ks. P (the (found k))}"
    using d by (simp add: distinct_length_filter Collect_conj_eq Int_commute)
  also have "{k \<in> set ks. P (the (found k))} = {k. \<exists>e. found k = Some e \<and> P e}"
    using s by auto
  finally show ?thesis .
qed

text \<open>
  Claim C5. The classifier puts every Result in exactly one bucket, by its status: 0 is
  unreachable; 404 is not-found (key \<open>404\<close>); 301 and 302 are redirect (key \<open>301\<close>); any
  other status from 200 up to 399 is live; every remaining status is other. The count
  reported for a bucket is the number of registry entries whose Result falls in it,
  whatever the order in which the registry is enumerated.
\<close>

theorem classification_counts:
  assumes "iteration_order found ks"
  shows "(bucket r = ''unreachable'' \<longleftrightarrow> Status r = 0)
     \<and> (bucket r = ''404'' \<longleftrightarrow> Status r = 404)
     \<and> (bucket r = ''301'' \<longleftrightarrow> Status r = 301 \<or> Status r = 302)
     \<and> (bucket r = ''live'' \<longleftrightarrow>
          200 \<le> Status r \<and> Status r < 400 \<and> Status r \<noteq> 301 \<and> Status r \<noteq> 302)
     \<and> (bucket r = ''other'' \<longleftrightarrow>
          Status r \<noteq> 0 \<and> Status r \<noteq> 404 \<and> \<not> (200 \<le> Status r \<and> Status r < 400))
     \<and> (b \<in> {''live'', ''404'', ''301'', ''other'', ''unreachable''} \<longrightarrow>
          classify counts_init (range_found found ks) b
            = Some (int (card {k. \<exists>e. found k = Some e \<and> bucket e = b})))"
proof (intro conjI impI)
  show "bucket r = ''unreachable'' \<longleftrightarrow> Status r = 0"
    by (simp add: bucket_def)
  show "bucket r = ''404'' \<longleftrightarrow> Status r = 404"
    by (simp add: bucket_def)
  show "bucket r = ''301'' \<longleftrightarrow> Status r = 301 \<or> Status r = 302"
    by (auto simp: bucket_def)
  show "bucket r = ''live'' \<longleftrightarrow>
          200 \<le> Status r \<and> Status r < 400 \<and> Status r \<noteq> 301 \<and> Status r \<noteq> 302"
    by (auto simp: bucket_def)
  show "bucket r = ''other'' \<longleftrightarrow>
          Status r \<noteq> 0 \<and> Status r \<noteq> 404 \<and> \<not> (200 \<le> Status r \<and> Status r < 400)"
    by (auto simp: bucket_def)
next
  assume b: "b \<in> {''live'', ''404'', ''301'', ''other'', ''unreachable''}"
  then have "counts_init b = Some 0" by (rule counts_init_keys)
  then have "classify counts_init (range_found found ks) b
      = Some (int (length (filter (\<lambda>e. bucket e = b) (range_found found ks))))"
    by (simp add: classify_counts)
  then show "classify counts_init (range_found found ks) b
            = Some (int (card {k. \<exists>e. found k = Some e \<and> bucket e = b}))"
    by (simp add: entries_in_bucket [OF assms])
qed

theorem classification_counts_witness:
  "iteration_order
     (record_result (record_result found_init
        \<lparr>Subdomain = ''www.example.com'', Status = 200, IP = ''1.2.3.4''\<rparr>)
        \<lparr>Subdomain = ''mail.example.com'', Status = 0, IP = []\<rparr>)
     [''mail.example.com'', ''www.example.com'']
   \<and> card {k. \<exists>e. record_result (record_result found_init
        \<lparr>Subdomain = ''www.example.com'', Status = 200, IP = ''1.2.3.4''\<rparr>)
        \<lparr>Subdomain = ''mail.example.com'', Status = 0, IP = []\<rparr> k = Some e \<and> bucket e = ''live''} = 1
   \<and> card {k. \<exists>e. record_result (record_result found_init
        \<lparr>Subdomain = ''www.example.com'', Status = 200, IP = ''1.2.3.4''\<rparr>)
        \<lparr>Subdomain = ''mail.example.com'', Status = 0, IP = []\<rparr> k = Some e \<and> bucket e = ''301''} = 0"
proof -
  let ?reg = "record_result (record_result found_init
        \<lparr>Subdomain = ''www.example.com'', Status = 200, IP = ''1.2.3.4''\<rparr>)
        \<lparr>Subdomain = ''mail.example.com'', Status = 0, IP = []\<rparr>"
  let ?ks = "[''mail.example.com'', ''www.example.com'']"
  have order: "iteration_order ?reg ?ks"
    by (auto simp: iteration_order_def record_result_def found_init_def)
  have subs: "range_found ?reg ?ks =
      [\<lparr>Subdomain = ''mail.example.com'', Status = 0, IP = []\<rparr>,
       \<lparr>Subdomain = ''www.example.com'', Status = 200, IP = ''1.2.3.4''\<rparr>]"
    by (simp add: range_found_def List.map_filter_simps record_result_def found_init_def)
  have live: "classify counts_init (range_found ?reg ?ks) ''live'' = Some 1"
    unfolding subs by (simp add: counts_init_def incr_def bucket_def)
  have redirect: "classify counts_init (range_found ?reg ?ks) ''301'' = Some 0"
    unfolding subs by (simp add: counts_init_def incr_def bucket_def)
  from classification_counts [OF order, of "\<lparr>Subdomain = [], Status = 0, IP = []\<rparr>" "''live''"] live
  have c1: "card {k. \<exists>e. ?reg k = Some e \<and> bucket e = ''live''} = 1" by simp
  from classification_counts [OF order, of "\<lparr>Subdomain = [], Status = 0, IP = []\<rparr>" "''301''"] redirect
  have c0: "card {k. \<exists>e. ?reg k = Some e \<and> bucket e = ''301''} = 0" by simp
  from order c1 c0 show ?thesis by blast
qed

section \<open>The recursion expander\<close>

text \<open>
  Claim C10. The expander derives candidates only from a subdomain that splits into at
  least three labels at its dots. For a Result whose subdomain has fewer than three labels
  (a candidate under a single-label root, say) the collector records the Result and leaves
  the job queue as it is, in deep mode and with a non-zero status too.
\<close>

theorem few_labels_no_expansion:
  "length (Split (Subdomain r) (CHR ''.'')) < 3 \<Longrightarrow>
     collect deep domain (found, jobs) r = Done (record_result found r, jobs)"
  by (simp add: collect_no_expansion)

theorem few_labels_no_expansion_witness:
  "length (Split ''www.localhost'' (CHR ''.'')) < 3
   \<and> collect True ''localhost'' (found_init, make_chan 10000)
        \<lparr>Subdomain = ''www.localhost'', Status = 200, IP = ''127.0.0.1''\<rparr>
     = Done (record_result found_init
               \<lparr>Subdomain = ''www.localhost'', Status = 200, IP = ''127.0.0.1''\<rparr>,
             make_chan 10000)"
proof -
  have few: "length (Split (Subdomain \<lparr>Subdomain = ''www.localhost'', Status = 200, IP = ''127.0.0.1''\<rparr>)
      (CHR ''.'')) < 3"
    by simp
  from few_labels_no_expansion [OF few, of True "''localhost''" found_init "make_chan 10000"] few
  show ?thesis by simp
qed


text \<open>
  Claim C6, as amended. In deep mode, for every consumed Result with a non-zero status
  whose subdomain splits into at least three labels, the first of which is \<open>L\<close>, and with
  root domain \<open>R\<close>, the derived candidates are exactly \<open>L-stage.R\<close>, \<open>L-dev.R\<close> and
  \<open>api.L.R\<close>, in this order, and the ones enqueued are those whose key is absent from the
  registry when they are checked, which is after the Result itself has been recorded.
  This is what every completed step of the collector has done, and every step completes
  when the job queue is open and has room for three more candidates.
\<close>

theorem derivation_of_candidates:
  assumes "deep" and "Status r \<noteq> 0"
    and "Split (Subdomain r) (CHR ''.'') = L # rest" and "2 \<le> length rest"
  shows "(collect deep R (found, jobs) r = Done (f, j) \<longrightarrow>
            f = record_result found r \<and>
            j = jobs\<lparr>ch_buf := ch_buf jobs @
                  filter (\<lambda>c. record_result found r c = None)
                    [L @ ''-stage.'' @ R, L @ ''-dev.'' @ R, ''api.'' @ L @ ''.'' @ R]\<rparr>)
     \<and> (\<not> ch_closed jobs \<and> length (ch_buf jobs) + 3 \<le> ch_cap jobs \<longrightarrow>
            collect deep R (found, jobs) r =
              Done (record_result found r,
                jobs\<lparr>ch_buf := ch_buf jobs @
                  filter (\<lambda>c. record_result found r c = None)
                    [L @ ''-stage.'' @ R, L @ ''-dev.'' @ R, ''api.'' @ L @ ''.'' @ R]\<rparr>))"
proof -
  from assms(3,4) have three: "3 \<le> length (Split (Subdomain r) (CHR ''.''))"
    and first: "Split (Subdomain r) (CHR ''.'') ! 0 = L"
    by simp_all
  show ?thesis
    using collect_expansion_Done [OF assms(1,2) three, of R found jobs f j]
      collect_expansion_room [OF assms(1,2) three, of jobs R found]
    unfolding first by blast
qed

theorem derivation_of_candidates_witness:
  "Split (Subdomain \<lparr>Subdomain = ''api.example.com'', Status = 200, IP = ''93.184.216.34''\<rparr>)
       (CHR ''.'') = ''api'' # [''example'', ''com'']
   \<and> collect True ''example.com'' (found_init, make_chan 10000)
        \<lparr>Subdomain = ''api.example.com'', Status = 200, IP = ''93.184.216.34''\<rparr>
     = Done (record_result found_init
               \<lparr>Subdomain = ''api.example.com'', Status = 200, IP = ''93.184.216.34''\<rparr>,
             \<lparr>ch_buf = [''api-stage.example.com'', ''api-dev.example.com'', ''api.api.example.com''],
              ch_cap = 10000, ch_closed = False\<rparr>)"
proof -
  let ?r = "\<lparr>Subdomain = ''api.example.com'', Status = 200, IP = ''93.184.216.34''\<rparr>"
  have sp: "Split (Subdomain ?r) (CHR ''.'') = ''api'' # [''example'', ''com'']"
    by simp
  have st: "Status ?r \<noteq> 0" by simp
  have len: "2 \<le> length [''example'', ''com'']" by simp
  from derivation_of_candidates [OF TrueI st sp len, of "''example.com''" found_init
      "make_chan 10000" "record_result found_init ?r" "make_chan 10000"] sp
  show ?thesis
    by (simp add: make_chan_def record_result_def found_init_def)
qed

text \<open>
  The claim as stated, for every Result with a non-zero status, fails under a single-label
  root: the live Result for \<open>www.com\<close> with root \<open>com\<close> derives nothing, although
  \<open>www-stage.com\<close> is absent from the registry.
\<close>

theorem derivation_of_candidates_counterexample:
  "collect True ''com'' (found_init, make_chan 10000)
        \<lparr>Subdomain = ''www.com'', Status = 200, IP = ''93.184.216.34''\<rparr>
     = Done (record_result found_init
               \<lparr>Subdomain = ''www.com'', Status = 200, IP = ''93.184.216.34''\<rparr>,
             \<lparr>ch_buf = [], ch_cap = 10000, ch_closed = False\<rparr>)
   \<and> record_result found_init
        \<lparr>Subdomain = ''www.com'', Status = 200, IP = ''93.184.216.34''\<rparr> ''www-stage.com'' = None"
  by (simp add: collect_def make_chan_def record_result_def found_init_def)




section \<open>Enqueueing after the job queue is closed\<close>

text \<open>
  Claim C1 says that an enqueue attempted after the job queue was closed is dropped
  silently. On the code it is not: \<open>main\<close> closes the queue (line 268), and the
  collector's next send on it (line 251) is a send on a closed channel, which panics and
  ends the process. Evaluated on the Result of \<open>www.example.com\<close> arriving after the close:
\<close>

theorem enqueue_after_close_panics:
  "close_chan (make_chan 10000) = Done \<lparr>ch_buf = [] :: string list, ch_cap = 10000, ch_closed = True\<rparr>
   \<and> collect True ''example.com''
        (found_init, \<lparr>ch_buf = [], ch_cap = 10000, ch_closed = True\<rparr>)
        \<lparr>Subdomain = ''www.example.com'', Status = 200, IP = ''93.184.216.34''\<rparr>
     = Panic SendOnClosedChannel"
  by (simp add: close_chan_def collect_def make_chan_def record_result_def found_init_def
      enqueue_absent_def send_def)

section \<open>The report\<close>

lemma report_unfiltered_sorted: "sorted (report_lines False subs)"
  by (simp add: report_lines_def)

lemma report_unfiltered_lines:
  "set (report_lines False subs) = line_of ` set subs \<and>
   length (report_lines False subs) = length subs"
  by (simp add: report_lines_def)

lemma report_filtered:
  "report_lines True subs = map line_of (filter (\<lambda>r. 200 \<le> Status r \<and> Status r < 400) subs)"
  by (simp add: report_lines_def)

text \<open>
  Claim C4 says that the emitted lines are sorted with and without the live-only filter.
  Without the filter they are (\<open>report_unfiltered_sorted\<close>). With the filter the code
  builds the output from \<open>subs\<close> again (lines 311-315) and not from the sorted
  \<open>lines\<close>, so the lines come out in the order in which Go enumerated the registry.
  Evaluated on a registry of two live hosts that Go enumerates as \<open>b\<close>, \<open>a\<close>:
\<close>

theorem live_only_report_not_sorted:
  "iteration_order
     (record_result (record_result found_init
        \<lparr>Subdomain = ''a.example.com'', Status = 200, IP = []\<rparr>)
        \<lparr>Subdomain = ''b.example.com'', Status = 200, IP = []\<rparr>)
     [''b.example.com'', ''a.example.com'']
   \<and> report_lines True (range_found
     (record_result (record_result found_init
        \<lparr>Subdomain = ''a.example.com'', Status = 200, IP = []\<rparr>)
        \<lparr>Subdomain = ''b.example.com'', Status = 200, IP = []\<rparr>)
     [''b.example.com'', ''a.example.com''])
     = [''b.example.com 200'', ''a.example.com 200'']
   \<and> \<not> sorted [''b.example.com 200'', ''a.example.com 200'']
   \<and> report_lines False (range_found
     (record_result (record_result found_init
        \<lparr>Subdomain = ''a.example.com'', Status = 200, IP = []\<rparr>)
        \<lparr>Subdomain = ''b.example.com'', Status = 200, IP = []\<rparr>)
     [''b.example.com'', ''a.example.com''])
     = [''a.example.com 200'', ''b.example.com 200'']"
proof -
  let ?reg = "record_result (record_result found_init
        \<lparr>Subdomain = ''a.example.com'', Status = 200, IP = []\<rparr>)
        \<lparr>Subdomain = ''b.example.com'', Status = 200, IP = []\<rparr>"
  have order: "iteration_order ?reg [''b.example.com'', ''a.example.com'']"
    by (auto simp: iteration_order_def record_result_def found_init_def)
  have subs: "range_found ?reg [''b.example.com'', ''a.example.com''] =
      [\<lparr>Subdomain = ''b.example.com'', Status = 200, IP = []\<rparr>,
       \<lparr>Subdomain = ''a.example.com'', Status = 200, IP = []\<rparr>]"
    by (simp add: range_found_def List.map_filter_simps record_result_def found_init_def)
  have filtered: "report_lines True (range_found ?reg [''b.example.com'', ''a.example.com''])
      = [''b.example.com 200'', ''a.example.com 200'']"
    unfolding subs
    by (simp add: report_lines_def line_of_def show_int_def show_nat.simps digit_char_def)
  have unsorted: "\<not> sorted [''b.example.com 200'', ''a.example.com 200'']"
    by simp
  have plain: "report_lines False (range_found ?reg [''b.example.com'', ''a.example.com''])
      = [''a.example.com 200'', ''b.example.com 200'']"
    unfolding subs
    by (simp add: report_lines_def line_of_def show_int_def show_nat.simps digit_char_def)
  from order filtered unsorted plain show ?thesis by blast
qed

section \<open>The prober\<close>

lemma probe_Subdomain: "snd (probe net sub) = Inr r \<Longrightarrow> Subdomain r = sub"
  by (auto simp: probe_def Let_def split: if_splits option.splits)

text \<open>
  Claim C7, as amended. For every candidate whose two URLs the request constructor accepts,
  the prober first resolves the name, and a failed resolution only leaves the address
  empty; it then makes one HTTP attempt, and one HTTPS attempt only if HTTP yielded no
  response; nothing else is attempted. The status of the Result is the status code of the
  first response obtained and 0 when neither scheme yields one: so the status is 0 if and
  only if neither scheme yields a response or the response obtained carries the status
  code 0 itself.
\<close>

theorem probe_attempts:
  assumes "NewRequest net (''http://'' @ sub)" and "NewRequest net (''https://'' @ sub)"
  shows "fst (probe net sub) =
           [Lookup sub, Get (''http://'' @ sub)] @
           (if client_Do net (''http://'' @ sub) = None then [Get (''https://'' @ sub)] else [])
     \<and> snd (probe net sub) =
           Inr \<lparr>Subdomain = sub,
                Status = (case client_Do net (''http://'' @ sub) of
                            Some code \<Rightarrow> code
                          | None \<Rightarrow> (case client_Do net (''https://'' @ sub) of
                                       Some code2 \<Rightarrow> code2
                                     | None \<Rightarrow> 0)),
                IP = (case LookupHost net sub of [] \<Rightarrow> [] | a # _ \<Rightarrow> a)\<rparr>
     \<and> ((\<exists>r. snd (probe net sub) = Inr r \<and> Status r = 0) \<longleftrightarrow>
           (client_Do net (''http://'' @ sub) = None \<and> client_Do net (''https://'' @ sub) = None)
           \<or> client_Do net (''http://'' @ sub) = Some 0
           \<or> (client_Do net (''http://'' @ sub) = None \<and> client_Do net (''https://'' @ sub) = Some 0))"
  using assms
  by (cases "LookupHost net sub")
     (auto simp: probe_def Let_def split: option.splits)

theorem probe_attempts_witness:
  "probe example_net ''www.example.com'' =
     ([Lookup ''www.example.com'', Get ''http://www.example.com''],
      Inr \<lparr>Subdomain = ''www.example.com'', Status = 200, IP = ''93.184.216.34''\<rparr>)
   \<and> probe example_net ''secure.example.com'' =
     ([Lookup ''secure.example.com'', Get ''http://secure.example.com'',
       Get ''https://secure.example.com''],
      Inr \<lparr>Subdomain = ''secure.example.com'', Status = 404, IP = []\<rparr>)
   \<and> probe example_net ''down.example.com'' =
     ([Lookup ''down.example.com'', Get ''http://down.example.com'',
       Get ''https://down.example.com''],
      Inr \<lparr>Subdomain = ''down.example.com'', Status = 0, IP = []\<rparr>)"
proof -
  have ok: "NewRequest example_net (''http://'' @ ''www.example.com'')"
    "NewRequest example_net (''https://'' @ ''www.example.com'')"
    "NewRequest example_net (''http://'' @ ''secure.example.com'')"
    "NewRequest example_net (''https://'' @ ''secure.example.com'')"
    "NewRequest example_net (''http://'' @ ''down.example.com'')"
    "NewRequest example_net (''https://'' @ ''down.example.com'')"
    by (simp_all add: example_net_def)
  from probe_attempts [OF ok(1,2)]
  have www: "probe example_net ''www.example.com'' =
     ([Lookup ''www.example.com'', Get ''http://www.example.com''],
      Inr \<lparr>Subdomain = ''www.example.com'', Status = 200, IP = ''93.184.216.34''\<rparr>)"
    by (simp add: prod_eq_iff example_net_def)
  from probe_attempts [OF ok(3,4)]
  have secure: "probe example_net ''secure.example.com'' =
     ([Lookup ''secure.example.com'', Get ''http://secure.example.com'',
       Get ''https://secure.example.com''],
      Inr \<lparr>Subdomain = ''secure.example.com'', Status = 404, IP = []\<rparr>)"
    by (simp add: prod_eq_iff example_net_def)
  from probe_attempts [OF ok(5,6)]
  have down: "probe example_net ''down.example.com'' =
     ([Lookup ''down.example.com'', Get ''http://down.example.com'',
       Get ''https://down.example.com''],
      Inr \<lparr>Subdomain = ''down.example.com'', Status = 0, IP = []\<rparr>)"
    by (simp add: prod_eq_iff example_net_def)
  from www secure down show ?thesis by blast
qed

text \<open>
  The claim as stated (status 0 if and only if neither scheme yields a response) fails
  when a host answers with status code 0, which Go's client accepts (a status line
  \<open>HTTP/1.1 000\<close>): HTTP yielded a response, no HTTPS attempt is made, and the status is 0.
\<close>

theorem probe_attempts_counterexample:
  "client_Do example_net ''http://zero.example.com'' = Some 0
   \<and> probe example_net ''zero.example.com'' =
     ([Lookup ''zero.example.com'', Get ''http://zero.example.com''],
      Inr \<lparr>Subdomain = ''zero.example.com'', Status = 0, IP = []\<rparr>)"
  by (simp add: probe_def example_net_def)

section \<open>The worker\<close>

lemma recv_Received:
  "recv ch = Received v ch' \<longleftrightarrow> ch_buf ch = v # ch_buf ch' \<and> ch' = ch\<lparr>ch_buf := ch_buf ch'\<rparr>"
  by (cases ch) (auto simp: recv_def split: list.splits)

text \<open>
  A run of the worker, left alone, consumes a prefix of the job queue and publishes the
  Results of these candidates in order, one each, with the candidate as subdomain; only
  when it stops waiting to publish, or crashed, the last candidate consumed has no
  published Result.
\<close>

lemma worker_accounting:
  "worker net ctx jobs results = (stop, jobs', results') \<Longrightarrow>
     \<exists>consumed published.
        ch_buf jobs = consumed @ ch_buf jobs' \<and>
        ch_buf results' = ch_buf results @ published \<and>
        (case stop of
           Returned \<Rightarrow> map Subdomain published = consumed
         | WaitingForJob \<Rightarrow> map Subdomain published = consumed
         | WaitingToSend r \<Rightarrow> consumed = map Subdomain published @ [Subdomain r]
         | Crashed e \<Rightarrow> \<exists>c. consumed = map Subdomain published @ [c])"
proof (induction net ctx jobs results rule: worker.induct)
  case (1 net ctx jobs results)
  show ?case
  proof (cases "ctx = Some 0")
    case True
    with "1.prems" show ?thesis by (simp add: worker.simps)
  next
    case running: False
    show ?thesis
    proof (cases "recv jobs")
      case ClosedAndDrained
      with running "1.prems" show ?thesis by (simp add: worker.simps)
    next
      case NothingYet
      with running "1.prems" show ?thesis by (simp add: worker.simps)
    next
      case (Received sub jobs1)
      then have buf: "ch_buf jobs = sub # ch_buf jobs1" by (simp add: recv_Received)
      show ?thesis
      proof (cases "snd (probe net sub)")
        case (Inl e)
        with running Received "1.prems" have "stop = Crashed e" "jobs' = jobs1" "results' = results"
          by (simp_all add: worker.simps)
        with buf show ?thesis
          by (intro exI [of _ "[sub]"] exI [of _ "[]"]) simp
      next
        case (Inr r)
        then have sub: "Subdomain r = sub" by (rule probe_Subdomain)
        show ?thesis
        proof (cases "send results r")
          case (Done results1)
          then have rbuf: "ch_buf results1 = ch_buf results @ [r]"
            by (auto simp: send_eq_Done)
          from running Received Inr Done "1.prems"
          have "worker net (map_option (\<lambda>n. n - 1) ctx) jobs1 results1 = (stop, jobs', results')"
            by (simp add: worker.simps)
          from "1.IH" [OF running Received Inr Done this]
          obtain consumed published where
            c: "ch_buf jobs1 = consumed @ ch_buf jobs'" and
            p: "ch_buf results' = ch_buf results1 @ published" and
            s: "(case stop of
                   Returned \<Rightarrow> map Subdomain published = consumed
                 | WaitingForJob \<Rightarrow> map Subdomain published = consumed
                 | WaitingToSend r \<Rightarrow> consumed = map Subdomain published @ [Subdomain r]
                 | Crashed e \<Rightarrow> \<exists>c. consumed = map Subdomain published @ [c])"
            by blast
          show ?thesis
            using buf rbuf c p s sub
            by (intro exI [of _ "sub # consumed"] exI [of _ "r # published"])
               (auto split: wstop.splits)
        next
          case Blocked
          with running Received Inr "1.prems"
          have "stop = WaitingToSend r" "jobs' = jobs1" "results' = results"
            by (simp_all add: worker.simps)
          with buf sub show ?thesis
            by (intro exI [of _ "[sub]"] exI [of _ "[]"]) simp
        next
          case (Panic e)
          with running Received Inr "1.prems"
          have "stop = Crashed e" "jobs' = jobs1" "results' = results"
            by (simp_all add: worker.simps)
          with buf show ?thesis
            by (intro exI [of _ "[sub]"] exI [of _ "[]"]) simp
        qed
      qed
    qed
  qed
qed

lemma worker_example_run:
  "worker example_net None
     \<lparr>ch_buf = [''www.example.com'', ''down.example.com''], ch_cap = 10000, ch_closed = True\<rparr>
     \<lparr>ch_buf = [], ch_cap = 10000, ch_closed = False\<rparr>
   = (Returned,
      \<lparr>ch_buf = [], ch_cap = 10000, ch_closed = True\<rparr>,
      \<lparr>ch_buf = [\<lparr>Subdomain = ''www.example.com'', Status = 200, IP = ''93.184.216.34''\<rparr>,
                 \<lparr>Subdomain = ''down.example.com'', Status = 0, IP = []\<rparr>],
       ch_cap = 10000, ch_closed = False\<rparr>)"
  by (simp add: worker.simps recv_def probe_def example_net_def send_def)

text \<open>
  Claim C8 says that every candidate consumed from the job queue gives exactly one
  published Result. A run of the worker that does not crash keeps this count
  (\<open>worker_accounting\<close>, \<open>worker_example_run\<close>). But the worker discards the error of
  \<open>http.NewRequestWithContext\<close> (lines 58 and 65) and hands the \<open>nil\<close> request to
  \<open>client.Do\<close>: for a candidate whose URL is refused, such as one with a space from the word
  list line \<open>a b\<close>, the goroutine panics after consuming the candidate and publishes
  nothing. Evaluated on a closed job queue holding that candidate and one more:
\<close>

theorem worker_crashes_on_refused_url:
  "worker example_net None
     \<lparr>ch_buf = [''a b.example.com'', ''www.example.com''], ch_cap = 10000, ch_closed = True\<rparr>
     \<lparr>ch_buf = [], ch_cap = 10000, ch_closed = False\<rparr>
   = (Crashed NilPointerDereference,
      \<lparr>ch_buf = [''www.example.com''], ch_cap = 10000, ch_closed = True\<rparr>,
      \<lparr>ch_buf = [], ch_cap = 10000, ch_closed = False\<rparr>)"
  by (simp add: worker.simps recv_def probe_def example_net_def)

end
